theory Spec2Isabelle
  imports Main "HOL-Library.Multiset" "HOL-Library.Sublist"
begin

section \<open>RepoInsight: the repository catalogue and its read API\<close>

text \<open>
  A shallow embedding of \<^verbatim>\<open>app/models/repository.py\<close>, \<^verbatim>\<open>app/models/ai_analysis.py\<close>,
  \<^verbatim>\<open>app/api/routes/repositories.py\<close> and \<^verbatim>\<open>app/api/routes/analysis.py\<close>.

  Conventions of the model:
  \<^item> a table is the list of its rows in the order in which an unordered \<^verbatim>\<open>SELECT\<close>
    delivers them (the store's natural order);
  \<^item> a column declared \<^verbatim>\<open>nullable=False\<close> (or the primary key) has its value type, every
    other column is an \<open>option\<close> with \<open>None\<close> for SQL \<^verbatim>\<open>NULL\<close>;
  \<^item> a string is a list of bytes (UTF-8), a timestamp is an integer, a Python \<^verbatim>\<open>int\<close> is an
    \<open>int\<close>; a text column holds no NUL character (the database cannot store one);
  \<^item> columns of \<^verbatim>\<open>Repository\<close> carry the prefix \<open>r_\<close>, columns of \<^verbatim>\<open>AIAnalysis\<close> the
    prefix \<open>a_\<close> (both tables have \<^verbatim>\<open>id\<close>, \<^verbatim>\<open>url\<close>, \<^verbatim>\<open>created_at\<close>,
    \<^verbatim>\<open>updated_at\<close>);
  \<^item> a route takes the database and returns its response together with the database after
    the call; an exception raised by the driver or the database is the \<open>Inl\<close> of the response;
  \<^item> the database is PostgreSQL behind the psycopg2 driver (\<^verbatim>\<open>app/config.py\<close>).
\<close>

subsection \<open>Data model\<close>

record Repository =
  r_id :: int
  r_created_at :: "int option"
  r_updated_at :: "int option"
  r_deleted_at :: "int option"
  r_full_name :: string
  r_name :: string
  r_owner :: string
  r_description :: "string option"
  r_url :: string
  r_stars :: "int option"
  r_forks :: "int option"
  r_language :: "string option"
  r_topics :: "string option"
  r_readme :: "string option"
  r_last_pushed_at :: "int option"
  r_is_archived :: "bool option"
  r_license :: "string option"
  r_default_branch :: "string option"
  r_open_issues :: "int option"
  r_watchers :: "int option"
  r_size :: "int option"
  r_has_issues :: "bool option"
  r_has_projects :: "bool option"
  r_has_wiki :: "bool option"
  r_has_pages :: "bool option"
  r_has_downloads :: "bool option"
  r_is_template :: "bool option"
  r_last_analyzed_at :: "int option"
  r_analysis_status :: "string option"
  r_search_keyword :: "string option"
  r_search_rank :: "int option"
  r_last_crawled_at :: "int option"

record AIAnalysis =
  a_id :: int
  a_created_at :: "int option"
  a_updated_at :: "int option"
  a_url :: string
  a_content :: "string option"
  a_status :: "string option"
  a_error_message :: "string option"
  a_analysis_type :: "string option"
  a_model_version :: "string option"
  a_tokens_used :: "int option"

record database =
  repositories :: "Repository list"
  analyses :: "AIAnalysis list"

text \<open>The dictionary \<^verbatim>\<open>{'content': ..., 'status': ...}\<close> of both route modules.\<close>

record AnalysisView =
  content :: "string option"
  status :: "string option"

text \<open>
  The dictionary built by \<^verbatim>\<open>repo_with_analysis\<close>: the columns of the row (the copy of
  \<^verbatim>\<open>repo.__dict__\<close>) and the key \<^verbatim>\<open>'analysis'\<close>, whose value is a dictionary or \<^verbatim>\<open>None\<close>.
\<close>

record EnrichedRepository =
  e_repo :: Repository
  e_analysis :: "AnalysisView option"

text \<open>What \<^verbatim>\<open>get_repository_detail\<close> returns: \<^verbatim>\<open>{"error": ...}\<close> or the enriched row.\<close>

datatype detail_response = ErrorPayload string | Detail EnrichedRepository

text \<open>
  The exceptions that leave a route: the driver's \<^verbatim>\<open>ValueError\<close> for a text parameter with
  a NUL character, and the database's errors for a row count outside the 64-bit range and
  for a negative row count.
\<close>

datatype db_error = NulCharacter | OutOfRange | NegativeOffset | NegativeLimit


subsection \<open>What the database does for a query\<close>

text \<open>
  A text parameter of a statement: the driver refuses a string that contains the NUL
  character, before the statement reaches the database.
\<close>

definition nul :: char where "nul = CHR 0x00"

definition bind_text :: "string \<Rightarrow> db_error + string" where
  "bind_text s = (if nul \<in> set s then Inl NulCharacter else Inr s)"

text \<open>
  \<^verbatim>\<open>Column.ilike(pattern)\<close> is SQL \<^verbatim>\<open>ILIKE\<close> with no \<^verbatim>\<open>ESCAPE\<close> clause. In the pattern
  \<^verbatim>\<open>%\<close> stands for any run of characters (also the empty one), \<^verbatim>\<open>_\<close> for any one
  character, and a backslash makes the character after it stand for itself. The database
  rejects a pattern whose last character is such a backslash with nothing after it; this
  case is \<open>False\<close> below and \<open>dangling_escape\<close> recognises it.

  The match works on bytes and folds the case of the ASCII letters only. That is what the
  database does on ASCII text; on other text the database matches characters and folds
  case by its locale, which this model does not follow. The properties of the filter are
  therefore stated for ASCII queries over ASCII names.
\<close>

definition percent :: char where "percent = CHR ''%''"
definition underscore :: char where "underscore = CHR ''_''"
definition backslash :: char where "backslash = CHR 0x5C"

fun like_match :: "string \<Rightarrow> string \<Rightarrow> bool" where
  "like_match [] s = (s = [])"
| "like_match (p # ps) [] = (p = percent \<and> like_match ps [])"
| "like_match (p # ps) (c # t) =
     (if p = percent then like_match ps (c # t) \<or> like_match (p # ps) t
      else if p = underscore then like_match ps t
      else if p = backslash then
        (case ps of [] \<Rightarrow> False | e # ps' \<Rightarrow> c = e \<and> like_match ps' t)
      else c = p \<and> like_match ps t)"

fun dangling_escape :: "string \<Rightarrow> bool" where
  "dangling_escape [] = False"
| "dangling_escape [p] = (p = backslash)"
| "dangling_escape (p # e # ps) =
     (if p = backslash then dangling_escape ps else dangling_escape (e # ps))"

text \<open>Case folding of \<^verbatim>\<open>ILIKE\<close>, on the ASCII letters: \<^verbatim>\<open>A\<close>..\<^verbatim>\<open>Z\<close> become \<^verbatim>\<open>a\<close>..\<^verbatim>\<open>z\<close>.\<close>

definition lower_char :: "char \<Rightarrow> char" where
  "lower_char c =
     (let n = (of_char c :: nat) in if 65 \<le> n \<and> n \<le> 90 then char_of (n + 32) else c)"

definition ilike :: "string \<Rightarrow> string \<Rightarrow> bool" where
  "ilike s pattern = like_match (map lower_char pattern) (map lower_char s)"

text \<open>
  \<^verbatim>\<open>ORDER BY column DESC\<close>: larger values first and \<^verbatim>\<open>NULL\<close> before every value.
  \<open>desc_before a b\<close> holds when a row with key \<open>a\<close> may stand before a row with key \<open>b\<close>.
  The database leaves the order of rows with equal keys open, and may deliver them in any
  order; \<open>order_by_desc\<close> keeps them in their natural order, which is one of the orders
  the database may choose. \<open>ordered_desc key rows out\<close> holds for every order the database
  may deliver: \<open>out\<close> has the rows of the table, sorted by the key.
\<close>

fun desc_before :: "int option \<Rightarrow> int option \<Rightarrow> bool" where
  "desc_before None b = True"
| "desc_before (Some x) None = False"
| "desc_before (Some x) (Some y) = (y \<le> x)"

fun insert_desc :: "('r \<Rightarrow> int option) \<Rightarrow> 'r \<Rightarrow> 'r list \<Rightarrow> 'r list" where
  "insert_desc key x [] = [x]"
| "insert_desc key x (y # ys) =
     (if desc_before (key x) (key y) then x # y # ys else y # insert_desc key x ys)"

definition order_by_desc :: "('r \<Rightarrow> int option) \<Rightarrow> 'r list \<Rightarrow> 'r list" where
  "order_by_desc key rows = foldr (insert_desc key) rows []"

definition ordered_desc :: "('r \<Rightarrow> int option) \<Rightarrow> 'r list \<Rightarrow> 'r list \<Rightarrow> bool" where
  "ordered_desc key rows out \<longleftrightarrow>
     mset out = mset rows \<and> sorted_wrt (\<lambda>a b. desc_before (key a) (key b)) out"

text \<open>
  \<^verbatim>\<open>OFFSET\<close> and \<^verbatim>\<open>LIMIT\<close>. A row count is a 64-bit integer of the database: a count
  outside that range is refused when the statement is prepared, a negative count when it
  runs (the offset is looked at first). Either exception leaves the route.
\<close>

definition bigint :: "int \<Rightarrow> bool" where
  "bigint n \<longleftrightarrow> - (2 ^ 63) \<le> n \<and> n < 2 ^ 63"

definition offset_limit_rows :: "int \<Rightarrow> int \<Rightarrow> 'r list \<Rightarrow> db_error + 'r list" where
  "offset_limit_rows skip limit rows =
     (if \<not> bigint skip \<or> \<not> bigint limit then Inl OutOfRange
      else if skip < 0 then Inl NegativeOffset
      else if limit < 0 then Inl NegativeLimit
      else Inr (take (nat limit) (drop (nat skip) rows)))"

definition limit_rows :: "int \<Rightarrow> 'r list \<Rightarrow> db_error + 'r list" where
  "limit_rows limit rows =
     (if \<not> bigint limit then Inl OutOfRange
      else if limit < 0 then Inl NegativeLimit
      else Inr (take (nat limit) rows))"

text \<open>\<^verbatim>\<open>Query.first()\<close>: the first row of the result, or \<^verbatim>\<open>None\<close>.\<close>

definition first_row :: "'r list \<Rightarrow> 'r option" where
  "first_row rows = (case rows of [] \<Rightarrow> None | r # _ \<Rightarrow> Some r)"

subsection \<open>\<^verbatim>\<open>app/api/routes/repositories.py\<close>\<close>

definition repo_with_analysis :: "Repository \<Rightarrow> database \<Rightarrow> EnrichedRepository \<times> database" where
  "repo_with_analysis repo db =
     (let analysis = first_row (filter (\<lambda>a. a_url a = r_url repo) (analyses db)) in
      (case analysis of
         Some a \<Rightarrow>
           \<lparr>e_repo = repo, e_analysis = Some \<lparr>content = a_content a, status = a_status a\<rparr>\<rparr>
       | None \<Rightarrow> \<lparr>e_repo = repo, e_analysis = None\<rparr>,
       db))"

text \<open>The comprehension \<^verbatim>\<open>[repo_with_analysis(r, db) for r in repos]\<close>.\<close>

fun repos_with_analysis :: "Repository list \<Rightarrow> database \<Rightarrow> EnrichedRepository list \<times> database" where
  "repos_with_analysis [] db = ([], db)"
| "repos_with_analysis (r # rs) db =
     (let (e, db1) = repo_with_analysis r db;
          (es, db2) = repos_with_analysis rs db1
      in (e # es, db2))"

definition get_repositories ::
  "string option \<Rightarrow> int \<Rightarrow> int \<Rightarrow> database \<Rightarrow> (db_error + EnrichedRepository list) \<times> database" where
  "get_repositories q skip limit db =
     (let query = Inr (repositories db);
          query = (case q of
                     None \<Rightarrow> query
                   | Some s \<Rightarrow>
                       if s \<noteq> []
                       then (case bind_text ([percent] @ s @ [percent]) of
                               Inl err \<Rightarrow> Inl err
                             | Inr pattern \<Rightarrow>
                                 Inr (filter (\<lambda>r. ilike (r_full_name r) pattern)
                                        (repositories db)))
                       else query)
      in case query of
           Inl err \<Rightarrow> (Inl err, db)
         | Inr rows \<Rightarrow>
             (case offset_limit_rows skip limit rows of
                Inl err \<Rightarrow> (Inl err, db)
              | Inr repos \<Rightarrow> (let (es, db') = repos_with_analysis repos db in (Inr es, db'))))"

definition get_top_repositories ::
  "string \<Rightarrow> int \<Rightarrow> database \<Rightarrow> (db_error + EnrichedRepository list) \<times> database" where
  "get_top_repositories sort_by limit db =
     (let result =
            (if sort_by = ''stars''
             then limit_rows limit (order_by_desc r_stars (repositories db))
             else if sort_by = ''updated''
             then limit_rows limit (order_by_desc r_updated_at (repositories db))
             else limit_rows limit (repositories db))
      in case result of
           Inl err \<Rightarrow> (Inl err, db)
         | Inr repos \<Rightarrow> (let (es, db') = repos_with_analysis repos db in (Inr es, db')))"

definition get_repository_detail ::
  "int \<Rightarrow> database \<Rightarrow> (db_error + detail_response) \<times> database" where
  "get_repository_detail repo_id db =
     (case first_row (filter (\<lambda>r. r_id r = repo_id) (repositories db)) of
        None \<Rightarrow> (Inr (ErrorPayload ''Not found''), db)
      | Some repo \<Rightarrow> (let (e, db') = repo_with_analysis repo db in (Inr (Detail e), db')))"

subsection \<open>\<^verbatim>\<open>app/api/routes/analysis.py\<close>\<close>

text \<open>The literal of the \<^verbatim>\<open>else\<close> branch, six Chinese characters, as its UTF-8 bytes.\<close>

definition no_result_yet :: string where
  "no_result_yet =
     [CHR 0xE6, CHR 0x9A, CHR 0x82, CHR 0xE6, CHR 0x97, CHR 0xA0,
      CHR 0xE5, CHR 0x88, CHR 0x86, CHR 0xE6, CHR 0x9E, CHR 0x90,
      CHR 0xE7, CHR 0xBB, CHR 0x93, CHR 0xE6, CHR 0x9E, CHR 0x9C]"

definition analyze_project :: "string \<Rightarrow> database \<Rightarrow> (db_error + AnalysisView) \<times> database" where
  "analyze_project url db =
     (case bind_text url of
        Inl err \<Rightarrow> (Inl err, db)
      | Inr u \<Rightarrow>
          (case first_row (filter (\<lambda>a. a_url a = u) (analyses db)) of
             Some a \<Rightarrow> (Inr \<lparr>content = a_content a, status = a_status a\<rparr>, db)
           | None \<Rightarrow> (Inr \<lparr>content = Some no_result_yet, status = Some ''pending''\<rparr>, db)))"

subsection \<open>Example rows\<close>

text \<open>
  A row of \<^verbatim>\<open>repository\<close> as the ORM inserts it when only the identifying columns and the
  stars are given: every other column takes its declared default, or \<^verbatim>\<open>NULL\<close>.
\<close>

definition new_repository :: "int \<Rightarrow> string \<Rightarrow> string \<Rightarrow> int \<Rightarrow> Repository" where
  "new_repository i full url stars =
     \<lparr>r_id = i, r_created_at = Some 0, r_updated_at = None, r_deleted_at = None,
      r_full_name = full, r_name = full, r_owner = full, r_description = None, r_url = url,
      r_stars = Some stars, r_forks = Some 0, r_language = None, r_topics = None,
      r_readme = None, r_last_pushed_at = None, r_is_archived = Some False, r_license = None,
      r_default_branch = None, r_open_issues = Some 0, r_watchers = Some 0, r_size = Some 0,
      r_has_issues = Some True, r_has_projects = Some True, r_has_wiki = Some True,
      r_has_pages = Some False, r_has_downloads = Some True, r_is_template = Some False,
      r_last_analyzed_at = None, r_analysis_status = Some ''pending'',
      r_search_keyword = None, r_search_rank = None, r_last_crawled_at = None\<rparr>"

definition new_analysis :: "int \<Rightarrow> string \<Rightarrow> string \<Rightarrow> string \<Rightarrow> AIAnalysis" where
  "new_analysis i url text st =
     \<lparr>a_id = i, a_created_at = Some 0, a_updated_at = None, a_url = url,
      a_content = Some text, a_status = Some st, a_error_message = None,
      a_analysis_type = Some ''summary'', a_model_version = None, a_tokens_used = None\<rparr>"

definition react :: Repository where
  "react = new_repository 1 ''facebook/react'' ''https://github.com/facebook/react'' 200"

definition widgets :: Repository where
  "widgets = new_repository 2 ''acme/widgets'' ''https://github.com/acme/widgets'' 42"

definition my_repo :: Repository where
  "my_repo = new_repository 3 ''acme/my-repo'' ''https://github.com/acme/my-repo'' 7"

definition widgets_analysis :: AIAnalysis where
  "widgets_analysis =
     new_analysis 1 ''https://github.com/acme/widgets'' ''Widget library.'' ''completed''"

definition small_db :: database where
  "small_db = \<lparr>repositories = [my_repo, react, widgets], analyses = [widgets_analysis]\<rparr>"

subsection \<open>Vocabulary of the properties\<close>

text \<open>
  The rows that the filter step of \<^verbatim>\<open>get_repositories\<close> leaves: all of them when \<^verbatim>\<open>q\<close> is
  \<^verbatim>\<open>None\<close> or empty, those whose \<^verbatim>\<open>full_name\<close> matches the pattern otherwise.
\<close>

definition filtered_query :: "string option \<Rightarrow> Repository list \<Rightarrow> Repository list" where
  "filtered_query q rows =
     (case q of
        None \<Rightarrow> rows
      | Some s \<Rightarrow>
          if s \<noteq> []
          then filter (\<lambda>r. ilike (r_full_name r) ([percent] @ s @ [percent])) rows
          else rows)"

text \<open>
  The join of the specification: the enriched row is a row of the table; when an analysis
  row with the row's url exists, its content and status are attached; when none exists,
  the attached analysis is \<^verbatim>\<open>None\<close>.
\<close>

definition carries_analysis :: "database \<Rightarrow> EnrichedRepository \<Rightarrow> bool" where
  "carries_analysis db e \<longleftrightarrow>
     e_repo e \<in> set (repositories db) \<and>
     (\<forall>a\<in>set (analyses db). a_url a = r_url (e_repo e) \<longrightarrow>
        e_analysis e = Some \<lparr>content = a_content a, status = a_status a\<rparr>) \<and>
     ((\<forall>a\<in>set (analyses db). a_url a \<noteq> r_url (e_repo e)) \<longrightarrow> e_analysis e = None)"


text \<open>
  Soft-delete markers: \<open>mark_rows mark db\<close> is \<open>db\<close> with the \<^verbatim>\<open>deleted_at\<close> column of
  every repository row set by \<open>mark\<close>; \<open>mark_enriched\<close> and \<open>mark_detail\<close> set the same
  column in a response.
\<close>

definition with_deleted_at :: "(Repository \<Rightarrow> int option) \<Rightarrow> Repository \<Rightarrow> Repository" where
  "with_deleted_at mark r = r\<lparr>r_deleted_at := mark r\<rparr>"

definition mark_rows :: "(Repository \<Rightarrow> int option) \<Rightarrow> database \<Rightarrow> database" where
  "mark_rows mark db = db\<lparr>repositories := map (with_deleted_at mark) (repositories db)\<rparr>"

definition mark_enriched ::
  "(Repository \<Rightarrow> int option) \<Rightarrow> EnrichedRepository \<Rightarrow> EnrichedRepository" where
  "mark_enriched mark e = e\<lparr>e_repo := with_deleted_at mark (e_repo e)\<rparr>"

fun mark_detail :: "(Repository \<Rightarrow> int option) \<Rightarrow> detail_response \<Rightarrow> detail_response" where
  "mark_detail mark (ErrorPayload msg) = ErrorPayload msg"
| "mark_detail mark (Detail e) = Detail (mark_enriched mark e)"

definition deleted_db :: database where
  "deleted_db = mark_rows (\<lambda>r. if r_id r = 2 then Some 1700000000 else None) small_db"

text \<open>
  The vocabulary of the search claim, in the words of the specification.
  \<open>ascii s\<close>: every byte of \<open>s\<close> is an ASCII character.
  \<open>like_plain q\<close>: the query has no character that \<^verbatim>\<open>ILIKE\<close> reads as a wildcard or an
  escape.
  \<open>same_letter c d\<close>: the two characters are equal, or one is a capital ASCII letter and the
  other the small letter of the same name.
  \<open>icontains s q\<close>: \<open>s\<close> contains \<open>q\<close> as a substring, case ignored: at some position of
  \<open>s\<close> the characters of \<open>q\<close> follow, each up to \<open>same_letter\<close>.
\<close>

definition ascii :: "string \<Rightarrow> bool" where
  "ascii s \<longleftrightarrow> list_all (\<lambda>c. (of_char c :: nat) < 128) s"

definition like_plain :: "string \<Rightarrow> bool" where
  "like_plain q \<longleftrightarrow> percent \<notin> set q \<and> underscore \<notin> set q \<and> backslash \<notin> set q"

definition capital :: "char \<Rightarrow> bool" where
  "capital c \<longleftrightarrow> 65 \<le> (of_char c :: nat) \<and> (of_char c :: nat) \<le> 90"

definition same_letter :: "char \<Rightarrow> char \<Rightarrow> bool" where
  "same_letter c d \<longleftrightarrow>
     c = d \<or>
     (capital c \<and> (of_char d :: nat) = of_char c + 32) \<or>
     (capital d \<and> (of_char c :: nat) = of_char d + 32)"

fun starts_with_letters :: "string \<Rightarrow> string \<Rightarrow> bool" where
  "starts_with_letters s [] = True"
| "starts_with_letters [] (c # q) = False"
| "starts_with_letters (d # s) (c # q) = (same_letter d c \<and> starts_with_letters s q)"

fun icontains :: "string \<Rightarrow> string \<Rightarrow> bool" where
  "icontains [] q = (q = [])"
| "icontains (d # s) q = (starts_with_letters (d # s) q \<or> icontains s q)"

text \<open>
  \<open>refused_query q\<close>: the query is present, not empty, and has a NUL character, so that the
  driver refuses the pattern built from it.
\<close>

definition refused_query :: "string option \<Rightarrow> bool" where
  "refused_query q = (case q of None \<Rightarrow> False | Some s \<Rightarrow> s \<noteq> [] \<and> nul \<in> set s)"


text \<open>
  \<open>highest_stars rows n page\<close>: the page holds the \<open>n\<close> rows of the table with the highest
  stars (all rows, when the table has fewer), in descending order of stars: it has that
  many rows, they are rows of the table, they are in descending order, and no row left out
  has more stars than a row of the page.
\<close>

definition highest_stars :: "Repository list \<Rightarrow> nat \<Rightarrow> Repository list \<Rightarrow> bool" where
  "highest_stars rows n page \<longleftrightarrow>
     length page = min n (length rows) \<and>
     sorted_wrt (\<lambda>a b. the (r_stars b) \<le> the (r_stars a)) page \<and>
     mset page \<subseteq># mset rows \<and>
     (\<forall>x\<in>#(mset rows - mset page). \<forall>y\<in>set page. the (r_stars x) \<le> the (r_stars y))"

section \<open>Properties\<close>

subsection \<open>What the routes compute\<close>

lemma repo_with_analysis_db: "snd (repo_with_analysis r db) = db"
  by (simp add: repo_with_analysis_def Let_def)

lemma repos_with_analysis_eq:
  "repos_with_analysis rs db = (map (\<lambda>r. fst (repo_with_analysis r db)) rs, db)"
proof (induction rs)
  case Nil
  show ?case by simp
next
  case (Cons r rs)
  obtain e where e: "repo_with_analysis r db = (e, db)"
    using repo_with_analysis_db [of r db] by (metis prod.collapse)
  with Cons show ?case by simp
qed

lemma e_repo_with_analysis: "e_repo (fst (repo_with_analysis r db)) = r"
  by (simp add: repo_with_analysis_def Let_def split: option.splits)

lemma percent_not_nul: "percent \<noteq> nul"
  by (simp add: percent_def nul_def)

lemma bind_pattern:
  "bind_text ([percent] @ s @ [percent]) =
     (if nul \<in> set s then Inl NulCharacter else Inr ([percent] @ s @ [percent]))"
  using percent_not_nul by (auto simp: bind_text_def)

lemma get_repositories_unfold:
  "get_repositories q skip limit db =
     (if refused_query q then (Inl NulCharacter, db)
      else case offset_limit_rows skip limit (filtered_query q (repositories db)) of
             Inl err \<Rightarrow> (Inl err, db)
           | Inr repos \<Rightarrow> (Inr (map (\<lambda>r. fst (repo_with_analysis r db)) repos), db))"
proof (cases q)
  case None
  then show ?thesis
    by (simp add: get_repositories_def refused_query_def filtered_query_def
        repos_with_analysis_eq split: sum.splits)
next
  case (Some s)
  show ?thesis
    unfolding Some get_repositories_def refused_query_def filtered_query_def Let_def
    by (simp only: bind_pattern option.case)
      (simp add: repos_with_analysis_eq split: sum.splits)
qed

lemma get_top_repositories_unfold:
  "get_top_repositories sort_by limit db =
     (case limit_rows limit
             (if sort_by = ''stars'' then order_by_desc r_stars (repositories db)
              else if sort_by = ''updated'' then order_by_desc r_updated_at (repositories db)
              else repositories db) of
        Inl err \<Rightarrow> (Inl err, db)
      | Inr repos \<Rightarrow> (Inr (map (\<lambda>r. fst (repo_with_analysis r db)) repos), db))"
  by (simp add: get_top_repositories_def repos_with_analysis_eq split: sum.splits)

lemma get_repository_detail_unfold:
  "get_repository_detail repo_id db =
     (case first_row (filter (\<lambda>r. r_id r = repo_id) (repositories db)) of
        None \<Rightarrow> (Inr (ErrorPayload ''Not found''), db)
      | Some repo \<Rightarrow> (Inr (Detail (fst (repo_with_analysis repo db))), db))"
proof (cases "first_row (filter (\<lambda>r. r_id r = repo_id) (repositories db))")
  case None
  then show ?thesis by (simp add: get_repository_detail_def)
next
  case (Some repo)
  obtain e where e: "repo_with_analysis repo db = (e, db)"
    using repo_with_analysis_db [of repo db] by (metis prod.collapse)
  with Some show ?thesis by (simp add: get_repository_detail_def)
qed

subsection \<open>The routes only read\<close>

lemma get_repositories_db: "snd (get_repositories q skip limit db) = db"
  by (simp add: get_repositories_unfold split: sum.splits)

lemma get_top_repositories_db: "snd (get_top_repositories s limit db) = db"
  by (simp add: get_top_repositories_unfold split: sum.splits)

lemma get_repository_detail_db: "snd (get_repository_detail i db) = db"
  by (simp add: get_repository_detail_unfold split: option.splits)

lemma analyze_project_db: "snd (analyze_project u db) = db"
  by (simp add: analyze_project_def split: sum.splits option.splits)

text \<open>
  C8. Each of the four routes returns the database it was given: for every input and every
  store, the repository rows and the analysis rows after the call are those before it.
\<close>

theorem core_is_read_only:
  "snd (get_repositories q skip limit db) = db \<and>
   snd (get_top_repositories sort_by limit' db) = db \<and>
   snd (get_repository_detail repo_id db) = db \<and>
   snd (analyze_project url db) = db"
  by (simp add: get_repositories_db get_top_repositories_db get_repository_detail_db
      analyze_project_db)

subsection \<open>Looking a row up\<close>

lemmas example_rows =
  small_db_def my_repo_def react_def widgets_def widgets_analysis_def
  new_repository_def new_analysis_def

lemma first_row_filter_None:
  "first_row (filter P rows) = None \<longleftrightarrow> (\<forall>r\<in>set rows. \<not> P r)"
  by (induction rows) (auto simp: first_row_def)

lemma first_row_filter_Some:
  "first_row (filter P rows) = Some r \<Longrightarrow> r \<in> set rows \<and> P r"
  by (induction rows) (auto simp: first_row_def split: if_splits)

lemma first_row_unique:
  "distinct (map key rows) \<Longrightarrow> r \<in> set rows \<Longrightarrow>
   first_row (filter (\<lambda>x. key x = key r) rows) = Some r"
proof (induction rows)
  case Nil
  then show ?case by simp
next
  case (Cons x rows)
  show ?case
  proof (cases "x = r")
    case True
    then show ?thesis by (simp add: first_row_def)
  next
    case False
    with Cons.prems have "r \<in> set rows" and "key x \<noteq> key r"
      by force+
    with Cons show ?thesis by simp
  qed
qed

text \<open>
  C5. When no repository row has the requested id, \<^verbatim>\<open>get_repository_detail\<close> returns the
  dictionary \<^verbatim>\<open>{"error": "Not found"}\<close> as its ordinary return value (which the framework
  sends with status 200): no exception, and no row, whole or partial.
\<close>

theorem get_repository_detail_not_found:
  assumes "\<forall>r\<in>set (repositories db). r_id r \<noteq> repo_id"
  shows "get_repository_detail repo_id db = (Inr (ErrorPayload ''Not found''), db)"
proof -
  have "first_row (filter (\<lambda>r. r_id r = repo_id) (repositories db)) = None"
    using assms by (intro iffD2 [OF first_row_filter_None]) simp
  then show ?thesis by (simp add: get_repository_detail_def)
qed

theorem get_repository_detail_not_found_witness:
  "get_repository_detail 99 small_db = (Inr (ErrorPayload ''Not found''), small_db)"
proof -
  have h: "\<forall>r\<in>set (repositories small_db). r_id r \<noteq> 99"
    by (simp add: example_rows)
  show ?thesis using get_repository_detail_not_found [OF h] by simp
qed

subsection \<open>The fallback of \<^verbatim>\<open>get_top_repositories\<close>\<close>

text \<open>
  C7. For a sort key that is neither \<^verbatim>\<open>stars\<close> nor \<^verbatim>\<open>updated\<close> and a limit that is a row
  count of the database (not negative, below \<open>2 ^ 63\<close>), \<^verbatim>\<open>get_top_repositories\<close> returns
  normally, and its rows are the first \<open>limit\<close> rows of the table in natural order, each
  passed through \<^verbatim>\<open>repo_with_analysis\<close>.
\<close>

theorem unknown_sort_key_natural_order:
  assumes "sort_by \<noteq> ''stars''" and "sort_by \<noteq> ''updated''"
    and "0 \<le> limit" and "limit < 2 ^ 63"
  shows "get_top_repositories sort_by limit db =
           (Inr (fst (repos_with_analysis (take (nat limit) (repositories db)) db)), db) \<and>
         map e_repo (fst (repos_with_analysis (take (nat limit) (repositories db)) db)) =
           take (nat limit) (repositories db)"
  using assms
  by (simp add: get_top_repositories_unfold limit_rows_def bigint_def repos_with_analysis_eq
      e_repo_with_analysis comp_def)

theorem unknown_sort_key_natural_order_witness:
  "\<exists>es. get_top_repositories ''forks'' 2 small_db = (Inr es, small_db) \<and>
        map e_repo es = [my_repo, react]"
proof -
  have h: "''forks'' \<noteq> ''stars''" "''forks'' \<noteq> ''updated''" "(0::int) \<le> 2" "(2::int) < 2 ^ 63"
    by simp_all
  have t: "take (nat 2) (repositories small_db) = [my_repo, react]"
    by (simp add: small_db_def)
  show ?thesis
    using unknown_sort_key_natural_order [OF h, of small_db] unfolding t by simp
qed

subsection \<open>\<^verbatim>\<open>analyze_project\<close>\<close>

text \<open>
  C4, as the claim states it, at a store with no analysis row: the content of the
  placeholder is not the English sentence of the claim.
\<close>

theorem analyze_project_placeholder_counterexample:
  "fst (analyze_project ''https://github.com/acme/widgets'' \<lparr>repositories = [], analyses = []\<rparr>)
     \<noteq> Inr \<lparr>content = Some ''no analysis available yet'', status = Some ''pending''\<rparr>"
  by (simp add: analyze_project_def bind_text_def nul_def first_row_def no_result_yet_def)

text \<open>
  C4, amended. With at most one analysis row per url (the column is declared unique), and
  for a url without a NUL character (which the driver refuses): when a row with the
  requested url exists, \<^verbatim>\<open>analyze_project\<close> returns its content and status; when none
  exists, it returns the placeholder whose content is the Chinese literal of the source
  (\<open>no_result_yet\<close>) and whose status is \<^verbatim>\<open>pending\<close>. In both cases the database is
  returned as it was.
\<close>

theorem analyze_project_found_or_pending:
  assumes "distinct (map a_url (analyses db))" and "nul \<notin> set url"
  shows "(\<forall>a\<in>set (analyses db). a_url a = url \<longrightarrow>
            analyze_project url db = (Inr \<lparr>content = a_content a, status = a_status a\<rparr>, db)) \<and>
         ((\<forall>a\<in>set (analyses db). a_url a \<noteq> url) \<longrightarrow>
            analyze_project url db =
              (Inr \<lparr>content = Some no_result_yet, status = Some ''pending''\<rparr>, db))"
proof (intro conjI ballI impI)
  have b: "bind_text url = Inr url"
    using assms(2) by (simp add: bind_text_def)
  {
    fix a assume "a \<in> set (analyses db)" and "a_url a = url"
    then have "first_row (filter (\<lambda>x. a_url x = url) (analyses db)) = Some a"
      using first_row_unique [OF assms(1), of a] by simp
    then show "analyze_project url db =
        (Inr \<lparr>content = a_content a, status = a_status a\<rparr>, db)"
      by (simp add: analyze_project_def b)
  }
  {
    assume "\<forall>a\<in>set (analyses db). a_url a \<noteq> url"
    then have "first_row (filter (\<lambda>x. a_url x = url) (analyses db)) = None"
      by (intro iffD2 [OF first_row_filter_None]) simp
    then show "analyze_project url db =
        (Inr \<lparr>content = Some no_result_yet, status = Some ''pending''\<rparr>, db)"
      by (simp add: analyze_project_def b)
  }
qed

theorem analyze_project_found_or_pending_witness:
  "analyze_project ''https://github.com/acme/widgets'' small_db =
     (Inr \<lparr>content = Some ''Widget library.'', status = Some ''completed''\<rparr>, small_db) \<and>
   analyze_project ''https://github.com/acme/gadgets'' small_db =
     (Inr \<lparr>content = Some no_result_yet, status = Some ''pending''\<rparr>, small_db)"
proof -
  have d: "distinct (map a_url (analyses small_db))"
    by (simp add: small_db_def)
  have z: "nul \<notin> set ''https://github.com/acme/widgets''"
    "nul \<notin> set ''https://github.com/acme/gadgets''"
    by (simp_all add: nul_def)
  have m: "widgets_analysis \<in> set (analyses small_db)"
    by (simp add: small_db_def)
  have u: "a_url widgets_analysis = ''https://github.com/acme/widgets''"
    by (simp add: widgets_analysis_def new_analysis_def)
  have c: "a_content widgets_analysis = Some ''Widget library.''"
    "a_status widgets_analysis = Some ''completed''"
    by (simp_all add: widgets_analysis_def new_analysis_def)
  have n: "\<forall>a\<in>set (analyses small_db). a_url a \<noteq> ''https://github.com/acme/gadgets''"
    by (simp add: small_db_def u)
  have 1: "analyze_project ''https://github.com/acme/widgets'' small_db =
      (Inr \<lparr>content = a_content widgets_analysis, status = a_status widgets_analysis\<rparr>,
       small_db)"
    using analyze_project_found_or_pending [OF d z(1), THEN conjunct1, rule_format, OF m u] .
  have 2: "analyze_project ''https://github.com/acme/gadgets'' small_db =
      (Inr \<lparr>content = Some no_result_yet, status = Some ''pending''\<rparr>, small_db)"
    using analyze_project_found_or_pending [OF d z(2), THEN conjunct2, THEN mp, OF n] .
  show ?thesis
    using 1 2 by (simp only: c simp_thms)
qed

subsection \<open>The rows of a response\<close>

lemma mset_insert_desc: "mset (insert_desc key x ys) = add_mset x (mset ys)"
  by (induction ys) auto

lemma mset_order_by_desc: "mset (order_by_desc key rows) = mset rows"
  by (induction rows) (auto simp: order_by_desc_def mset_insert_desc)

lemma set_order_by_desc: "set (order_by_desc key rows) = set rows"
  using mset_order_by_desc [of key rows] by (metis set_mset_mset)

lemma set_filtered_query: "set (filtered_query q rows) \<subseteq> set rows"
  by (auto simp: filtered_query_def split: option.splits)

lemma offset_limit_rows_Inr:
  "offset_limit_rows skip limit rows = Inr out \<Longrightarrow>
   out = take (nat limit) (drop (nat skip) rows)"
  by (simp add: offset_limit_rows_def split: if_splits)

lemma limit_rows_Inr: "limit_rows limit rows = Inr out \<Longrightarrow> out = take (nat limit) rows"
  by (simp add: limit_rows_def split: if_splits)

lemma get_repositories_rows:
  assumes "fst (get_repositories q skip limit db) = Inr es"
  shows "\<exists>rs. set rs \<subseteq> set (repositories db) \<and>
              es = map (\<lambda>r. fst (repo_with_analysis r db)) rs"
proof -
  let ?page = "take (nat limit) (drop (nat skip) (filtered_query q (repositories db)))"
  have "set ?page \<subseteq> set (filtered_query q (repositories db))"
    by (meson set_take_subset set_drop_subset subset_trans)
  then have "set ?page \<subseteq> set (repositories db)"
    using set_filtered_query by blast
  moreover have "es = map (\<lambda>r. fst (repo_with_analysis r db)) ?page"
    using assms
    by (auto simp: get_repositories_unfold split: if_splits sum.splits
        dest: offset_limit_rows_Inr)
  ultimately show ?thesis by blast
qed

lemma get_top_repositories_rows:
  assumes "fst (get_top_repositories sort_by limit db) = Inr es"
  shows "\<exists>rs. set rs \<subseteq> set (repositories db) \<and>
              es = map (\<lambda>r. fst (repo_with_analysis r db)) rs"
proof -
  define ordered where "ordered =
    (if sort_by = ''stars'' then order_by_desc r_stars (repositories db)
     else if sort_by = ''updated'' then order_by_desc r_updated_at (repositories db)
     else repositories db)"
  have "set ordered = set (repositories db)"
    by (simp add: ordered_def set_order_by_desc)
  then have "set (take (nat limit) ordered) \<subseteq> set (repositories db)"
    using set_take_subset by fastforce
  moreover have "es = map (\<lambda>r. fst (repo_with_analysis r db)) (take (nat limit) ordered)"
    using assms unfolding get_top_repositories_unfold ordered_def [symmetric]
    by (auto split: sum.splits dest: limit_rows_Inr)
  ultimately show ?thesis by blast
qed

lemma get_repository_detail_row:
  assumes "fst (get_repository_detail repo_id db) = Inr (Detail e)"
  shows "\<exists>r. r \<in> set (repositories db) \<and> r_id r = repo_id \<and> e = fst (repo_with_analysis r db)"
proof (cases "first_row (filter (\<lambda>r. r_id r = repo_id) (repositories db))")
  case None
  with assms show ?thesis by (simp add: get_repository_detail_def)
next
  case (Some r)
  then have "r \<in> set (repositories db) \<and> r_id r = repo_id"
    by (rule first_row_filter_Some)
  moreover have "e = fst (repo_with_analysis r db)"
    using assms Some by (simp add: get_repository_detail_def split: prod.splits)
  ultimately show ?thesis by blast
qed

subsection \<open>The join with the analysis table\<close>

lemma repo_with_analysis_carries:
  assumes "distinct (map a_url (analyses db))" and "r \<in> set (repositories db)"
  shows "carries_analysis db (fst (repo_with_analysis r db))"
proof (cases "first_row (filter (\<lambda>x. a_url x = r_url r) (analyses db))")
  case None
  then have e: "fst (repo_with_analysis r db) = \<lparr>e_repo = r, e_analysis = None\<rparr>"
    by (simp add: repo_with_analysis_def)
  have no: "\<forall>x\<in>set (analyses db). a_url x \<noteq> r_url r"
    using None by (simp only: first_row_filter_None)
  show ?thesis
    unfolding carries_analysis_def e using assms(2) no by simp
next
  case (Some a)
  then have e: "fst (repo_with_analysis r db) =
      \<lparr>e_repo = r, e_analysis = Some \<lparr>content = a_content a, status = a_status a\<rparr>\<rparr>"
    by (simp add: repo_with_analysis_def)
  have a: "a \<in> set (analyses db)" "a_url a = r_url r"
    using first_row_filter_Some [OF Some] by simp_all
  have u: "b = a" if "b \<in> set (analyses db)" and "a_url b = r_url r" for b
  proof -
    have "first_row (filter (\<lambda>x. a_url x = a_url b) (analyses db)) = Some b"
      using assms(1) that(1) by (rule first_row_unique)
    with Some that(2) show ?thesis by simp
  qed
  have 1: "e_repo \<lparr>e_repo = r, e_analysis = Some \<lparr>content = a_content a, status = a_status a\<rparr>\<rparr>
             \<in> set (repositories db)"
    using assms(2) by simp
  have 2: "\<forall>b\<in>set (analyses db). a_url b = r_url r \<longrightarrow>
             Some \<lparr>content = a_content a, status = a_status a\<rparr> =
             Some \<lparr>content = a_content b, status = a_status b\<rparr>"
    using u by blast
  have 3: "\<not> (\<forall>b\<in>set (analyses db). a_url b \<noteq> r_url r)"
    using a by blast
  show ?thesis
    unfolding carries_analysis_def e using 1 2 3 by simp
qed

text \<open>
  C1. With at most one analysis row per url (the column is declared unique), every row in
  the response of \<^verbatim>\<open>get_repositories\<close>, of \<^verbatim>\<open>get_top_repositories\<close> and of
  \<^verbatim>\<open>get_repository_detail\<close> is a repository row that carries the content and status of the
  analysis row with its url when there is one, and \<^verbatim>\<open>None\<close> when there is none.
\<close>

theorem analysis_joined_on_url:
  assumes "distinct (map a_url (analyses db))"
  shows "(\<forall>es. fst (get_repositories q skip limit db) = Inr es \<longrightarrow>
            (\<forall>e\<in>set es. carries_analysis db e)) \<and>
         (\<forall>es. fst (get_top_repositories sort_by limit' db) = Inr es \<longrightarrow>
            (\<forall>e\<in>set es. carries_analysis db e)) \<and>
         (\<forall>e. fst (get_repository_detail repo_id db) = Inr (Detail e) \<longrightarrow>
            carries_analysis db e)"
proof (intro conjI allI impI ballI)
  fix es e
  assume "fst (get_repositories q skip limit db) = Inr es" and "e \<in> set es"
  then obtain r where "r \<in> set (repositories db)" "e = fst (repo_with_analysis r db)"
    using get_repositories_rows by fastforce
  then show "carries_analysis db e"
    using repo_with_analysis_carries [OF assms] by simp
next
  fix es e
  assume "fst (get_top_repositories sort_by limit' db) = Inr es" and "e \<in> set es"
  then obtain r where "r \<in> set (repositories db)" "e = fst (repo_with_analysis r db)"
    using get_top_repositories_rows by fastforce
  then show "carries_analysis db e"
    using repo_with_analysis_carries [OF assms] by simp
next
  fix e
  assume "fst (get_repository_detail repo_id db) = Inr (Detail e)"
  then obtain r where "r \<in> set (repositories db)" "e = fst (repo_with_analysis r db)"
    using get_repository_detail_row by blast
  then show "carries_analysis db e"
    using repo_with_analysis_carries [OF assms] by simp
qed

lemma example_ids: "r_id my_repo = 3" "r_id react = 1" "r_id widgets = 2"
  by (simp_all add: my_repo_def react_def widgets_def new_repository_def)

lemma example_urls:
  "r_url widgets = ''https://github.com/acme/widgets''"
  "a_url widgets_analysis = ''https://github.com/acme/widgets''"
  "a_content widgets_analysis = Some ''Widget library.''"
  "a_status widgets_analysis = Some ''completed''"
  by (simp_all add: widgets_def new_repository_def widgets_analysis_def new_analysis_def)

theorem analysis_joined_on_url_witness:
  "fst (get_repository_detail 2 small_db) =
     Inr (Detail \<lparr>e_repo = widgets,
                  e_analysis = Some \<lparr>content = Some ''Widget library.'',
                                      status = Some ''completed''\<rparr>\<rparr>)"
proof -
  let ?e = "fst (repo_with_analysis widgets small_db)"
  have d: "distinct (map a_url (analyses small_db))"
    by (simp add: small_db_def)
  have f: "first_row (filter (\<lambda>r. r_id r = 2) (repositories small_db)) = Some widgets"
    by (simp add: small_db_def example_ids first_row_def)
  have r: "fst (get_repository_detail 2 small_db) = Inr (Detail ?e)"
    by (simp add: get_repository_detail_def f split: prod.splits)
  have c: "\<forall>e. fst (get_repository_detail 2 small_db) = Inr (Detail e) \<longrightarrow>
             carries_analysis small_db e"
    using analysis_joined_on_url [OF d, of None 0 0 "''stars''" 0 2]
    by (elim conjE)
  have ca: "carries_analysis small_db ?e"
    by (rule c [rule_format, OF r])
  have m: "widgets_analysis \<in> set (analyses small_db)"
    by (simp add: small_db_def)
  have u: "a_url widgets_analysis = r_url (e_repo ?e)"
    by (simp add: e_repo_with_analysis example_urls)
  have j: "\<forall>a\<in>set (analyses small_db). a_url a = r_url (e_repo ?e) \<longrightarrow>
             e_analysis ?e = Some \<lparr>content = a_content a, status = a_status a\<rparr>"
    using ca unfolding carries_analysis_def by (elim conjE)
  have a: "e_analysis ?e =
      Some \<lparr>content = Some ''Widget library.'', status = Some ''completed''\<rparr>"
    using j [rule_format, OF m u] by (simp add: example_urls)
  have "?e = \<lparr>e_repo = widgets,
      e_analysis = Some \<lparr>content = Some ''Widget library.'', status = Some ''completed''\<rparr>\<rparr>"
    by (rule EnrichedRepository.equality) (simp_all add: a e_repo_with_analysis)
  with r show ?thesis by simp
qed

subsection \<open>Pagination\<close>


lemma get_repositories_page:
  assumes "\<not> refused_query q"
    and "0 \<le> skip" and "skip < 2 ^ 63" and "0 \<le> limit" and "limit < 2 ^ 63"
  shows "get_repositories q skip limit db =
           (Inr (map (\<lambda>r. fst (repo_with_analysis r db))
                   (take (nat limit) (drop (nat skip) (filtered_query q (repositories db))))),
            db)"
  using assms by (simp add: get_repositories_unfold offset_limit_rows_def bigint_def)





subsection \<open>Soft-deleted rows\<close>

lemma with_deleted_at_columns:
  "r_id (with_deleted_at m r) = r_id r"
  "r_url (with_deleted_at m r) = r_url r"
  "r_full_name (with_deleted_at m r) = r_full_name r"
  "r_stars (with_deleted_at m r) = r_stars r"
  "r_updated_at (with_deleted_at m r) = r_updated_at r"
  by (simp_all add: with_deleted_at_def)

lemma mark_rows_tables:
  "repositories (mark_rows m db) = map (with_deleted_at m) (repositories db)"
  "analyses (mark_rows m db) = analyses db"
  by (simp_all add: mark_rows_def)

lemma repo_with_analysis_mark:
  "fst (repo_with_analysis (with_deleted_at m r) (mark_rows m db)) =
     mark_enriched m (fst (repo_with_analysis r db))"
  by (simp add: repo_with_analysis_def mark_rows_tables with_deleted_at_columns
      mark_enriched_def split: option.splits)

lemma map_repo_with_analysis_mark:
  "map (\<lambda>r. fst (repo_with_analysis r (mark_rows m db))) (map (with_deleted_at m) rows) =
     map (mark_enriched m) (map (\<lambda>r. fst (repo_with_analysis r db)) rows)"
  by (simp add: repo_with_analysis_mark comp_def)

lemma filter_map_same:
  assumes "\<And>x. P (f x) = P x"
  shows "filter P (map f xs) = map f (filter P xs)"
  using assms by (induction xs) simp_all

lemma filtered_query_mark:
  "filtered_query q (map (with_deleted_at m) rows) =
     map (with_deleted_at m) (filtered_query q rows)"
  by (simp add: filtered_query_def filter_map_same with_deleted_at_columns
      split: option.splits)

lemma insert_desc_map:
  assumes "\<And>x. key (f x) = key x"
  shows "insert_desc key (f x) (map f ys) = map f (insert_desc key x ys)"
  using assms by (induction ys) simp_all

lemma order_by_desc_map:
  assumes "\<And>x. key (f x) = key x"
  shows "order_by_desc key (map f rows) = map f (order_by_desc key rows)"
proof (induction rows)
  case Nil
  show ?case by (simp add: order_by_desc_def)
next
  case (Cons x rows)
  have "order_by_desc key (map f (x # rows)) =
        insert_desc key (f x) (order_by_desc key (map f rows))"
    by (simp add: order_by_desc_def)
  also have "\<dots> = insert_desc key (f x) (map f (order_by_desc key rows))"
    by (simp only: Cons.IH)
  also have "\<dots> = map f (insert_desc key x (order_by_desc key rows))"
    using assms by (rule insert_desc_map)
  also have "\<dots> = map f (order_by_desc key (x # rows))"
    by (simp add: order_by_desc_def)
  finally show ?case .
qed

lemma first_row_map: "first_row (map f rows) = map_option f (first_row rows)"
  by (cases rows) (simp_all add: first_row_def)

lemma offset_limit_rows_map:
  "offset_limit_rows skip limit (map f rows) =
     map_sum id (map f) (offset_limit_rows skip limit rows)"
  by (simp add: offset_limit_rows_def take_map drop_map)

lemma limit_rows_map:
  "limit_rows limit (map f rows) = map_sum id (map f) (limit_rows limit rows)"
  by (simp add: limit_rows_def take_map)

lemma get_repositories_mark:
  "fst (get_repositories q skip limit (mark_rows m db)) =
     map_sum id (map (mark_enriched m)) (fst (get_repositories q skip limit db))"
proof (cases "offset_limit_rows skip limit (filtered_query q (repositories db))")
  case (Inl err)
  then show ?thesis
    by (simp add: get_repositories_unfold mark_rows_tables filtered_query_mark
        offset_limit_rows_map)
next
  case (Inr repos)
  then show ?thesis
    by (simp add: get_repositories_unfold mark_rows_tables filtered_query_mark
        offset_limit_rows_map map_repo_with_analysis_mark del: map_map)
qed

lemma get_top_repositories_mark:
  "fst (get_top_repositories sort_by limit (mark_rows m db)) =
     map_sum id (map (mark_enriched m)) (fst (get_top_repositories sort_by limit db))"
proof -
  define ordered where "ordered =
    (if sort_by = ''stars'' then order_by_desc r_stars (repositories db)
     else if sort_by = ''updated'' then order_by_desc r_updated_at (repositories db)
     else repositories db)"
  have o: "(if sort_by = ''stars''
            then order_by_desc r_stars (map (with_deleted_at m) (repositories db))
            else if sort_by = ''updated''
            then order_by_desc r_updated_at (map (with_deleted_at m) (repositories db))
            else map (with_deleted_at m) (repositories db)) = map (with_deleted_at m) ordered"
    by (simp add: ordered_def order_by_desc_map with_deleted_at_columns)
  show ?thesis
  proof (cases "limit_rows limit ordered")
    case (Inl err)
    then show ?thesis
      unfolding get_top_repositories_unfold mark_rows_tables o ordered_def [symmetric]
      by (simp add: limit_rows_map)
  next
    case (Inr repos)
    then show ?thesis
      unfolding get_top_repositories_unfold mark_rows_tables o ordered_def [symmetric]
      by (simp add: limit_rows_map map_repo_with_analysis_mark del: map_map)
  qed
qed

lemma get_repository_detail_mark:
  "fst (get_repository_detail repo_id (mark_rows m db)) =
     map_sum id (mark_detail m) (fst (get_repository_detail repo_id db))"
proof -
  have "first_row (filter (\<lambda>r. r_id r = repo_id) (map (with_deleted_at m) (repositories db))) =
        map_option (with_deleted_at m)
          (first_row (filter (\<lambda>r. r_id r = repo_id) (repositories db)))"
    by (simp add: filter_map_same with_deleted_at_columns first_row_map)
  then show ?thesis
    by (simp add: get_repository_detail_unfold mark_rows_tables repo_with_analysis_mark
        split: option.splits)
qed

text \<open>
  C10. No route looks at \<^verbatim>\<open>deleted_at\<close>. Whatever soft-delete markers the repository rows
  carry, \<^verbatim>\<open>get_repositories\<close>, \<^verbatim>\<open>get_top_repositories\<close> and \<^verbatim>\<open>get_repository_detail\<close>
  select the same rows, in the same order and with the same analysis, as on the table
  without the markers; the marker only shows in the echoed column.
\<close>

theorem soft_delete_is_ignored:
  "fst (get_repositories q skip limit (mark_rows mark db)) =
     map_sum id (map (mark_enriched mark)) (fst (get_repositories q skip limit db)) \<and>
   fst (get_top_repositories sort_by limit' (mark_rows mark db)) =
     map_sum id (map (mark_enriched mark)) (fst (get_top_repositories sort_by limit' db)) \<and>
   fst (get_repository_detail repo_id (mark_rows mark db)) =
     map_sum id (mark_detail mark) (fst (get_repository_detail repo_id db))"
  by (simp only: get_repositories_mark get_top_repositories_mark get_repository_detail_mark)

lemma detail_of_widgets:
  "fst (get_repository_detail 2 small_db) =
     Inr (Detail \<lparr>e_repo = widgets,
                  e_analysis = Some \<lparr>content = Some ''Widget library.'',
                                      status = Some ''completed''\<rparr>\<rparr>)"
proof -
  have f: "first_row (filter (\<lambda>r. r_id r = 2) (repositories small_db)) = Some widgets"
    by (simp add: small_db_def example_ids first_row_def)
  have a: "first_row (filter (\<lambda>a. a_url a = ''https://github.com/acme/widgets'')
                        (analyses small_db)) = Some widgets_analysis"
    by (simp add: small_db_def example_urls first_row_def)
  show ?thesis
    by (simp add: get_repository_detail_unfold f repo_with_analysis_def a example_urls)
qed

theorem soft_delete_is_ignored_witness:
  "fst (get_repository_detail 2 deleted_db) =
     Inr (Detail \<lparr>e_repo = widgets\<lparr>r_deleted_at := Some 1700000000\<rparr>,
                  e_analysis = Some \<lparr>content = Some ''Widget library.'',
                                      status = Some ''completed''\<rparr>\<rparr>)"
proof -
  let ?mark = "\<lambda>r. if r_id r = 2 then Some 1700000000 else None"
  have "fst (get_repository_detail 2 (mark_rows ?mark small_db)) =
          map_sum id (mark_detail ?mark) (fst (get_repository_detail 2 small_db))"
    using soft_delete_is_ignored [of None 0 0 ?mark small_db "''stars''" 0 2]
    by (elim conjE)
  then show ?thesis
    by (simp add: deleted_db_def detail_of_widgets mark_enriched_def with_deleted_at_def
        example_ids)
qed

subsection \<open>Ordering by stars\<close>

lemma desc_before_total: "\<not> desc_before a b \<Longrightarrow> desc_before b a"
  by (cases a; cases b) simp_all

lemma desc_before_trans: "desc_before a b \<Longrightarrow> desc_before b c \<Longrightarrow> desc_before a c"
  by (cases a; cases b; cases c) simp_all

lemma set_insert_desc: "set (insert_desc key x ys) = insert x (set ys)"
  by (induction ys) auto

lemma sorted_insert_desc:
  assumes "sorted_wrt (\<lambda>a b. desc_before (key a) (key b)) ys"
  shows "sorted_wrt (\<lambda>a b. desc_before (key a) (key b)) (insert_desc key x ys)"
  using assms
proof (induction ys)
  case Nil
  show ?case by simp
next
  case (Cons y ys)
  show ?case
  proof (cases "desc_before (key x) (key y)")
    case True
    have "\<forall>z\<in>set ys. desc_before (key x) (key z)"
      using True Cons.prems desc_before_trans by auto
    with True Cons.prems show ?thesis by simp
  next
    case False
    then have "desc_before (key y) (key x)"
      by (rule desc_before_total)
    with False Cons show ?thesis by (simp add: set_insert_desc)
  qed
qed

lemma sorted_order_by_desc:
  "sorted_wrt (\<lambda>a b. desc_before (key a) (key b)) (order_by_desc key rows)"
proof (induction rows)
  case Nil
  show ?case by (simp add: order_by_desc_def)
next
  case (Cons x rows)
  have "order_by_desc key (x # rows) = insert_desc key x (order_by_desc key rows)"
    by (simp add: order_by_desc_def)
  with Cons show ?case by (simp only: sorted_insert_desc)
qed

lemma desc_before_values:
  assumes "a \<noteq> None" and "b \<noteq> None"
  shows "desc_before a b \<longleftrightarrow> the b \<le> the a"
  using assms by (cases a; cases b) simp_all

lemma ordered_desc_order_by_desc: "ordered_desc key rows (order_by_desc key rows)"
  by (simp add: ordered_desc_def mset_order_by_desc sorted_order_by_desc)

lemma top_rows_by_key:
  fixes key :: "'r \<Rightarrow> int option" and rows ordered :: "'r list" and n :: nat
  assumes nn: "\<forall>r\<in>set rows. key r \<noteq> None" and od: "ordered_desc key rows ordered"
  defines "page \<equiv> take n ordered"
  shows "length page = min n (length rows)"
    and "sorted_wrt (\<lambda>a b. the (key b) \<le> the (key a)) page"
    and "mset page \<subseteq># mset rows"
    and "\<forall>x\<in>#(mset rows - mset page). \<forall>y\<in>set page. the (key x) \<le> the (key y)"
proof -
  let ?R = "\<lambda>a b. desc_before (key a) (key b)"
  have m: "mset ordered = mset rows"
    using od by (simp add: ordered_desc_def)
  have srt: "sorted_wrt ?R ordered"
    using od by (simp add: ordered_desc_def)
  have len: "length ordered = length rows"
    using arg_cong [OF m, of size] by simp
  show "length page = min n (length rows)"
    by (simp add: page_def len)
  have "set ordered = set rows"
    using arg_cong [OF m, of set_mset] by simp
  then have nn': "\<forall>r\<in>set ordered. key r \<noteq> None"
    using nn by simp
  have "sorted_wrt (\<lambda>a b. the (key b) \<le> the (key a)) ordered"
    using srt
  proof (rule sorted_wrt_mono_rel [rotated])
    fix x y assume "x \<in> set ordered" "y \<in> set ordered" "?R x y"
    then show "the (key y) \<le> the (key x)"
      using nn' desc_before_values by blast
  qed
  then show "sorted_wrt (\<lambda>a b. the (key b) \<le> the (key a)) page"
    unfolding page_def by (rule sorted_wrt_take)
  have split: "ordered = page @ drop n ordered"
    by (simp add: page_def)
  have ms: "mset rows = mset page + mset (drop n ordered)"
    using arg_cong [OF split, of mset] m by simp
  then show "mset page \<subseteq># mset rows"
    by simp
  have rest: "mset rows - mset page = mset (drop n ordered)"
    using ms by simp
  have "sorted_wrt ?R (page @ drop n ordered)"
    using srt split by simp
  then have cross: "\<forall>y\<in>set page. \<forall>x\<in>set (drop n ordered). ?R y x"
    by (simp add: sorted_wrt_append)
  show "\<forall>x\<in>#(mset rows - mset page). \<forall>y\<in>set page. the (key x) \<le> the (key y)"
  proof (intro ballI)
    fix x y assume x: "x \<in># mset rows - mset page" and y: "y \<in> set page"
    from x have x': "x \<in> set (drop n ordered)"
      unfolding rest by simp
    have "x \<in> set ordered"
      using x' by (rule in_set_dropD)
    moreover have "y \<in> set ordered"
      using y unfolding page_def by (rule in_set_takeD)
    moreover have "?R y x"
      using cross x' y by blast
    ultimately show "the (key x) \<le> the (key y)"
      using nn' desc_before_values by blast
  qed
qed

lemma highest_stars_page:
  assumes "\<forall>r\<in>set rows. r_stars r \<noteq> None" and "ordered_desc r_stars rows ordered"
  shows "highest_stars rows n (take n ordered)"
  unfolding highest_stars_def
  using top_rows_by_key [OF assms, of n] by (intro conjI)

text \<open>
  C3, as the claim states it, at a table of one row and limit 3: the response has one row,
  not three.
\<close>

theorem top_by_stars_counterexample:
  "fst (get_top_repositories ''stars'' 3 \<lparr>repositories = [widgets], analyses = []\<rparr>) =
     Inr [\<lparr>e_repo = widgets, e_analysis = None\<rparr>]"
  by (simp add: get_top_repositories_unfold limit_rows_def bigint_def order_by_desc_def
      repo_with_analysis_def first_row_def)

text \<open>
  C3, amended. When every row has a stars value and the limit is a positive row count of
  the database (below \<open>2 ^ 63\<close>), \<^verbatim>\<open>get_top_repositories\<close> with sort key \<^verbatim>\<open>stars\<close> returns
  normally, with no offset, the rows with the highest stars in descending order: as many
  rows as the limit or the table allows, all of them rows of the table, and no row left
  out has more stars than a row returned. This holds of the first \<open>limit\<close> rows of every
  order in which the database may deliver the sorted table, whatever it does with rows
  of equal stars.
\<close>

theorem top_by_stars:
  assumes "\<forall>r\<in>set (repositories db). r_stars r \<noteq> None"
    and "0 < limit" and "limit < 2 ^ 63"
  shows "(\<exists>es. get_top_repositories ''stars'' limit db = (Inr es, db) \<and>
               highest_stars (repositories db) (nat limit) (map e_repo es)) \<and>
         (\<forall>ordered. ordered_desc r_stars (repositories db) ordered \<longrightarrow>
               highest_stars (repositories db) (nat limit) (take (nat limit) ordered))"
proof (intro conjI allI impI)
  let ?page = "take (nat limit) (order_by_desc r_stars (repositories db))"
  let ?es = "map (\<lambda>r. fst (repo_with_analysis r db)) ?page"
  have r: "get_top_repositories ''stars'' limit db = (Inr ?es, db)"
    using assms(2,3) by (simp add: get_top_repositories_unfold limit_rows_def bigint_def)
  have e: "map e_repo ?es = ?page"
    by (simp add: e_repo_with_analysis comp_def)
  have "highest_stars (repositories db) (nat limit) ?page"
    using assms(1) ordered_desc_order_by_desc by (rule highest_stars_page)
  then have "highest_stars (repositories db) (nat limit) (map e_repo ?es)"
    by (simp only: e)
  with r show "\<exists>es. get_top_repositories ''stars'' limit db = (Inr es, db) \<and>
      highest_stars (repositories db) (nat limit) (map e_repo es)"
    by (intro exI [of _ ?es] conjI)
next
  fix ordered assume "ordered_desc r_stars (repositories db) ordered"
  with assms(1) show "highest_stars (repositories db) (nat limit) (take (nat limit) ordered)"
    by (rule highest_stars_page)
qed

lemma example_stars:
  "r_stars my_repo = Some 7" "r_stars react = Some 200" "r_stars widgets = Some 42"
  by (simp_all add: my_repo_def react_def widgets_def new_repository_def)

theorem top_by_stars_witness:
  "\<exists>es. get_top_repositories ''stars'' 2 small_db = (Inr es, small_db) \<and>
        length es = 2 \<and>
        sorted_wrt (\<lambda>a b. the (r_stars b) \<le> the (r_stars a)) (map e_repo es)"
proof -
  have h: "\<forall>r\<in>set (repositories small_db). r_stars r \<noteq> None"
    by (simp add: small_db_def example_stars)
  have b: "(0::int) < 2" "(2::int) < 2 ^ 63"
    by simp_all
  from top_by_stars [OF h b, THEN conjunct1] obtain es where
    r: "get_top_repositories ''stars'' 2 small_db = (Inr es, small_db)"
    and p: "highest_stars (repositories small_db) (nat 2) (map e_repo es)"
    by blast
  have l: "length (map e_repo es) = min (nat 2) (length (repositories small_db))"
    using p unfolding highest_stars_def by (elim conjE)
  have s: "sorted_wrt (\<lambda>a b. the (r_stars b) \<le> the (r_stars a)) (map e_repo es)"
    using p unfolding highest_stars_def by (elim conjE)
  have "length es = 2"
    using l by (simp add: small_db_def)
  with r s show ?thesis
    by (intro exI [of _ es] conjI)
qed

subsection \<open>The search filter\<close>

lemma like_match_percent_only: "like_match [percent] s"
  by (induction s) simp_all

lemma like_match_percent:
  "like_match (percent # ps) s \<longleftrightarrow> (\<exists>t. suffix t s \<and> like_match ps t)"
proof (induction s)
  case Nil
  show ?case by simp
next
  case (Cons c s)
  have "like_match (percent # ps) (c # s) \<longleftrightarrow>
          like_match ps (c # s) \<or> like_match (percent # ps) s"
    by simp
  also have "\<dots> \<longleftrightarrow> like_match ps (c # s) \<or> (\<exists>t. suffix t s \<and> like_match ps t)"
    by (simp only: Cons.IH)
  also have "\<dots> \<longleftrightarrow> (\<exists>t. suffix t (c # s) \<and> like_match ps t)"
    by (auto simp: suffix_Cons)
  finally show ?case .
qed

lemma like_match_plain_prefix:
  assumes "like_plain q"
  shows "like_match (q @ [percent]) s \<longleftrightarrow> prefix q s"
  using assms
proof (induction q arbitrary: s)
  case Nil
  show ?case by (simp add: like_match_percent_only)
next
  case (Cons p q)
  from Cons.prems have p: "p \<noteq> percent" "p \<noteq> underscore" "p \<noteq> backslash"
    and q: "like_plain q"
    by (auto simp: like_plain_def)
  show ?case
  proof (cases s)
    case Nil
    with p show ?thesis by simp
  next
    case (Cons c t)
    with p Cons.IH [OF q, of t] show ?thesis by auto
  qed
qed

lemma like_match_substring:
  assumes "like_plain q"
  shows "like_match ([percent] @ q @ [percent]) s \<longleftrightarrow> sublist q s"
proof -
  have "like_match ([percent] @ q @ [percent]) s \<longleftrightarrow>
          (\<exists>t. suffix t s \<and> like_match (q @ [percent]) t)"
    using like_match_percent [of "q @ [percent]" s] by simp
  also have "\<dots> \<longleftrightarrow> (\<exists>t. suffix t s \<and> prefix q t)"
    by (simp only: like_match_plain_prefix [OF assms])
  also have "\<dots> \<longleftrightarrow> sublist q s"
    by (simp only: sublist_altdef')
  finally show ?thesis .
qed

lemma of_char_lower_char:
  "(of_char (lower_char c) :: nat) =
     (if 65 \<le> (of_char c :: nat) \<and> (of_char c :: nat) \<le> 90 then of_char c + 32 else of_char c)"
  by (simp add: lower_char_def Let_def)

lemma of_char_specials:
  "(of_char percent :: nat) = 37" "(of_char underscore :: nat) = 95"
  "(of_char backslash :: nat) = 92"
  by (simp_all add: percent_def underscore_def backslash_def)

lemma char_eq_of_char: "x = y \<longleftrightarrow> (of_char x :: nat) = of_char y"
  by simp

lemma lower_char_special:
  "lower_char c = percent \<longleftrightarrow> c = percent"
  "lower_char c = underscore \<longleftrightarrow> c = underscore"
  "lower_char c = backslash \<longleftrightarrow> c = backslash"
proof -
  show "lower_char c = percent \<longleftrightarrow> c = percent"
    unfolding char_eq_of_char [of _ percent] of_char_lower_char of_char_specials by auto
  show "lower_char c = underscore \<longleftrightarrow> c = underscore"
    unfolding char_eq_of_char [of _ underscore] of_char_lower_char of_char_specials by auto
  show "lower_char c = backslash \<longleftrightarrow> c = backslash"
    unfolding char_eq_of_char [of _ backslash] of_char_lower_char of_char_specials by auto
qed

lemma like_plain_lower: "like_plain q \<Longrightarrow> like_plain (map lower_char q)"
  by (auto simp: like_plain_def) (metis lower_char_special)+

lemma ilike_substring:
  assumes "like_plain q"
  shows "ilike s ([percent] @ q @ [percent]) \<longleftrightarrow>
           sublist (map lower_char q) (map lower_char s)"
proof -
  have "map lower_char ([percent] @ q @ [percent]) = [percent] @ map lower_char q @ [percent]"
    using lower_char_special(1) [of percent] by simp
  then show ?thesis
    unfolding ilike_def
    by (simp only: like_match_substring [OF like_plain_lower [OF assms]])
qed

text \<open>
  The case folding of the filter against the specification's words: two characters fold to
  the same character exactly when they are the same letter.
\<close>

lemma lower_char_same_letter: "lower_char c = lower_char d \<longleftrightarrow> same_letter c d"
proof -
  have "lower_char c = lower_char d \<longleftrightarrow>
          (of_char (lower_char c) :: nat) = of_char (lower_char d)"
    by (rule char_eq_of_char)
  also have "\<dots> \<longleftrightarrow> same_letter c d"
    unfolding of_char_lower_char same_letter_def capital_def char_eq_of_char [of c d]
    by auto
  finally show ?thesis .
qed

lemma starts_with_letters_prefix:
  "starts_with_letters s q \<longleftrightarrow> prefix (map lower_char q) (map lower_char s)"
proof (induction s q rule: starts_with_letters.induct)
  case (1 s)
  show ?case by simp
next
  case (2 c q)
  show ?case by simp
next
  case (3 d s c q)
  have "same_letter d c \<longleftrightarrow> lower_char c = lower_char d"
    using lower_char_same_letter [of d c] by auto
  with 3 show ?case by simp
qed

lemma icontains_sublist:
  "icontains s q \<longleftrightarrow> sublist (map lower_char q) (map lower_char s)"
proof (induction s)
  case Nil
  show ?case by simp
next
  case (Cons d s)
  have "icontains (d # s) q \<longleftrightarrow> starts_with_letters (d # s) q \<or> icontains s q"
    by simp
  also have "\<dots> \<longleftrightarrow> prefix (map lower_char q) (map lower_char (d # s)) \<or>
                   sublist (map lower_char q) (map lower_char s)"
    by (simp only: starts_with_letters_prefix Cons.IH)
  also have "\<dots> \<longleftrightarrow> sublist (map lower_char q) (map lower_char (d # s))"
    by (simp add: sublist_Cons_right)
  finally show ?case .
qed

lemma ilike_icontains:
  assumes "like_plain q"
  shows "ilike s ([percent] @ q @ [percent]) \<longleftrightarrow> icontains s q"
  by (simp only: ilike_substring [OF assms] icontains_sublist)

text \<open>
  The pattern that \<^verbatim>\<open>get_repositories\<close> builds ends in \<^verbatim>\<open>%\<close>, so it never ends in a
  backslash with nothing after it: the rejected case of \<open>like_match\<close> is not reached.
\<close>

lemma pattern_never_dangles_aux: "\<not> dangling_escape (q @ [percent])"
  by (induction q rule: dangling_escape.induct)
    (simp_all add: percent_def backslash_def)

lemma pattern_never_dangles: "\<not> dangling_escape ([percent] @ q @ [percent])"
proof (cases q)
  case Nil
  show ?thesis unfolding Nil by (simp add: percent_def backslash_def)
next
  case (Cons c cs)
  have "dangling_escape ([percent] @ q @ [percent]) = dangling_escape (q @ [percent])"
    unfolding Cons by (simp add: percent_def backslash_def)
  then show ?thesis using pattern_never_dangles_aux [of q] by simp
qed

lemma example_names:
  "r_full_name my_repo = ''acme/my-repo''" "r_full_name react = ''facebook/react''"
  "r_full_name widgets = ''acme/widgets''"
  by (simp_all add: my_repo_def react_def widgets_def new_repository_def)

lemma filtered_query_plain:
  assumes "q \<noteq> []" and "like_plain q"
  shows "filtered_query (Some q) rows = filter (\<lambda>r. icontains (r_full_name r) q) rows"
proof -
  have "ilike s (percent # q @ [percent]) = icontains s q" for s
    using ilike_icontains [OF assms(2), of s] by simp
  with assms(1) show ?thesis
    by (simp add: filtered_query_def)
qed

text \<open>
  C2, as the claim states it, at the query \<^verbatim>\<open>my_repo\<close>: the \<^verbatim>\<open>_\<close> of the query matches
  the \<^verbatim>\<open>-\<close> of \<^verbatim>\<open>acme/my-repo\<close>, so the row is returned although its full name does
  not contain the query.
\<close>

theorem search_wildcard_counterexample:
  "fst (get_repositories (Some ''my_repo'') 0 20 \<lparr>repositories = [my_repo], analyses = []\<rparr>) =
     Inr [\<lparr>e_repo = my_repo, e_analysis = None\<rparr>] \<and>
   \<not> icontains (r_full_name my_repo) ''my_repo''"
proof -
  have m: "ilike ''acme/my-repo'' ([percent] @ ''my_repo'' @ [percent])"
    by code_simp
  have n: "\<not> icontains ''acme/my-repo'' ''my_repo''"
    by code_simp
  have z: "\<not> refused_query (Some ''my_repo'')"
    by (simp add: refused_query_def nul_def)
  have f: "filtered_query (Some ''my_repo'') [my_repo] = [my_repo]"
    using m by (simp add: filtered_query_def example_names)
  have "fst (get_repositories (Some ''my_repo'') 0 20
          \<lparr>repositories = [my_repo], analyses = []\<rparr>) =
        Inr [\<lparr>e_repo = my_repo, e_analysis = None\<rparr>]"
    using get_repositories_page [OF z, of 0 20 "\<lparr>repositories = [my_repo], analyses = []\<rparr>"]
    by (simp add: f repo_with_analysis_def first_row_def)
  with n show ?thesis
    by (simp only: example_names simp_thms)
qed

text \<open>
  C2, amended. For an ASCII query that is not empty, has none of the pattern characters
  \<^verbatim>\<open>%\<close>, \<^verbatim>\<open>_\<close> and backslash and no NUL character, over a table whose full names are
  ASCII: every row that \<^verbatim>\<open>get_repositories\<close> returns has a full name that contains the
  query as a substring, case ignored; and for a skip and a limit that are row counts of
  the database the route returns normally, and the response is the page of exactly those
  rows.
\<close>

theorem search_matches_substring:
  assumes "q \<noteq> []" and "like_plain q" and "ascii q" and "nul \<notin> set q"
    and "\<forall>r\<in>set (repositories db). ascii (r_full_name r)"
  shows "(\<forall>es. fst (get_repositories (Some q) skip limit db) = Inr es \<longrightarrow>
            (\<forall>e\<in>set es. icontains (r_full_name (e_repo e)) q)) \<and>
         (0 \<le> skip \<longrightarrow> skip < 2 ^ 63 \<longrightarrow> 0 \<le> limit \<longrightarrow> limit < 2 ^ 63 \<longrightarrow>
            (\<exists>es. get_repositories (Some q) skip limit db = (Inr es, db) \<and>
                  map e_repo es =
                    take (nat limit) (drop (nat skip)
                      (filter (\<lambda>r. icontains (r_full_name r) q) (repositories db)))))"
proof (intro conjI allI impI ballI)
  fix es e
  assume r: "fst (get_repositories (Some q) skip limit db) = Inr es" and e: "e \<in> set es"
  let ?page = "take (nat limit) (drop (nat skip)
      (filter (\<lambda>r. icontains (r_full_name r) q) (repositories db)))"
  from r have "es = map (\<lambda>r. fst (repo_with_analysis r db)) ?page"
    by (auto simp: get_repositories_unfold filtered_query_plain [OF assms(1,2)]
        split: if_splits sum.splits dest: offset_limit_rows_Inr)
  then have "map e_repo es = ?page"
    by (simp add: e_repo_with_analysis comp_def)
  moreover have "e_repo e \<in> set (map e_repo es)"
    using e by simp
  ultimately have "e_repo e \<in> set ?page"
    by simp
  then have "e_repo e \<in> set (filter (\<lambda>r. icontains (r_full_name r) q) (repositories db))"
    by (meson in_set_takeD in_set_dropD)
  then show "icontains (r_full_name (e_repo e)) q"
    by simp
next
  assume b: "0 \<le> skip" "skip < 2 ^ 63" "0 \<le> limit" "limit < 2 ^ 63"
  let ?page = "take (nat limit) (drop (nat skip)
      (filter (\<lambda>r. icontains (r_full_name r) q) (repositories db)))"
  let ?es = "map (\<lambda>r. fst (repo_with_analysis r db)) ?page"
  have z: "\<not> refused_query (Some q)"
    using assms(4) by (simp add: refused_query_def)
  have "get_repositories (Some q) skip limit db = (Inr ?es, db)"
    using get_repositories_page [OF z b, of db]
    by (simp only: filtered_query_plain [OF assms(1,2)])
  moreover have "map e_repo ?es = ?page"
    by (simp add: e_repo_with_analysis comp_def)
  ultimately show "\<exists>es. get_repositories (Some q) skip limit db = (Inr es, db) \<and>
      map e_repo es = ?page"
    by (intro exI [of _ ?es] conjI)
qed

theorem search_matches_substring_witness:
  "(\<exists>es. get_repositories (Some ''REACT'') 0 20 small_db = (Inr es, small_db) \<and>
         map e_repo es = [react]) \<and>
   (\<exists>es. get_repositories (Some ''face'') 0 20 small_db = (Inr es, small_db) \<and>
         map e_repo es = [react])"
proof -
  have n1: "''REACT'' \<noteq> []" and n2: "''face'' \<noteq> []"
    by simp_all
  have p1: "like_plain ''REACT''" and p2: "like_plain ''face''"
    by (simp_all add: like_plain_def percent_def underscore_def backslash_def)
  have a1: "ascii ''REACT''" and a2: "ascii ''face''"
    by (simp_all add: ascii_def)
  have z1: "nul \<notin> set ''REACT''" and z2: "nul \<notin> set ''face''"
    by (simp_all add: nul_def)
  have an: "ascii ''acme/my-repo''" "ascii ''facebook/react''" "ascii ''acme/widgets''"
    by (simp_all add: ascii_def)
  have names: "\<forall>r\<in>set (repositories small_db). ascii (r_full_name r)"
    by (simp add: small_db_def example_names an)
  have c1: "\<not> icontains ''acme/my-repo'' ''REACT''" "icontains ''facebook/react'' ''REACT''"
    "\<not> icontains ''acme/widgets'' ''REACT''"
    by code_simp+
  have c2: "\<not> icontains ''acme/my-repo'' ''face''" "icontains ''facebook/react'' ''face''"
    "\<not> icontains ''acme/widgets'' ''face''"
    by code_simp+
  have rows: "repositories small_db = [my_repo, react, widgets]"
    by (simp add: small_db_def)
  have "filter (\<lambda>r. icontains (r_full_name r) ''REACT'') [my_repo, react, widgets] = [react]"
    by (simp only: filter.simps example_names c1 if_True if_False)
  then have f1: "take (nat 20) (drop (nat 0)
      (filter (\<lambda>r. icontains (r_full_name r) ''REACT'') (repositories small_db))) = [react]"
    unfolding rows by simp
  have "filter (\<lambda>r. icontains (r_full_name r) ''face'') [my_repo, react, widgets] = [react]"
    by (simp only: filter.simps example_names c2 if_True if_False)
  then have f2: "take (nat 20) (drop (nat 0)
      (filter (\<lambda>r. icontains (r_full_name r) ''face'') (repositories small_db))) = [react]"
    unfolding rows by simp
  have b: "(0::int) \<le> 0" "(0::int) < 2 ^ 63" "(0::int) \<le> 20" "(20::int) < 2 ^ 63"
    by simp_all
  have "\<exists>es. get_repositories (Some ''REACT'') 0 20 small_db = (Inr es, small_db) \<and>
         map e_repo es = [react]"
    using search_matches_substring [OF n1 p1 a1 z1 names, of 0 20,
        THEN conjunct2, rule_format, OF b]
    unfolding f1 .
  moreover have "\<exists>es. get_repositories (Some ''face'') 0 20 small_db = (Inr es, small_db) \<and>
         map e_repo es = [react]"
    using search_matches_substring [OF n2 p2 a2 z2 names, of 0 20,
        THEN conjunct2, rule_format, OF b]
    unfolding f2 .
  ultimately show ?thesis by (rule conjI)
qed

end
